theory Spec2Isabelle
  imports Complex_Main
begin

section \<open>Common notions\<close>

text \<open>
  Python exceptions that occur in the modelled code. \<open>AttributeError a\<close> is raised by
  reading the attribute \<open>a\<close> of an object that has no such attribute.
\<close>

datatype py_exn = ZeroDivisionError | ValueError | AttributeError string

text \<open>
  The result of a coroutine that may also stay suspended for ever (\<open>Blocks\<close>), which a
  task does that waits for a semaphore slot nobody releases.
\<close>

datatype 'a res = Returns 'a | Raises py_exn | Blocks

text \<open>
  Observable effects, recorded in the order in which the code performs them. Seconds are
  exact rationals (an idealisation of Python's floats).
\<close>

datatype effect =
    Invoke              \<comment> \<open>the operation wrapped by the retry decorator is called\<close>
  | Sleep rat           \<comment> \<open>\<open>asyncio.sleep\<close> or \<open>time.sleep\<close> for that many seconds\<close>
  | Admit rat           \<comment> \<open>the rate limiter stores this clock value in \<open>_last_call\<close>\<close>
  | Request string rat  \<comment> \<open>an HTTP GET for this URL with this timeout is issued\<close>
  | LogMsg string       \<comment> \<open>a message is logged\<close>

definition invocations :: "effect list \<Rightarrow> nat" where
  "invocations tr = length (filter (\<lambda>e. e = Invoke) tr)"

fun sleep_of :: "effect \<Rightarrow> rat option" where
  "sleep_of (Sleep d) = Some d"
| "sleep_of _ = None"

definition sleeps :: "effect list \<Rightarrow> rat list" where
  "sleeps tr = List.map_filter sleep_of tr"

section \<open>The retry decorator (utils/error\_handler.py)\<close>

text \<open>
  \<open>ErrorHandler.retry(max_attempts, delay, backoff, exceptions)\<close> wraps an operation
  \<open>func\<close>. The operation is effectful: it is a function from the state of the outside
  world to an outcome (\<open>Inl e\<close>: raised \<open>e\<close>; \<open>Inr v\<close>: returned \<open>v\<close>) and the next
  state. The tuple \<open>exceptions\<close> is the predicate "is an instance of one of these classes".

  The wrapper's result is \<open>Inl e\<close> when it raises \<open>e\<close>, \<open>Inr (Some v)\<close> when it returns
  the operation's value, and \<open>Inr None\<close> when the loop \<open>for attempt in range(max_attempts)\<close>
  ends without a return (only when \<open>max_attempts \<le> 0\<close>), where Python returns \<open>None\<close>.
\<close>

type_synonym ('e, 'a, 'w) operation = "'w \<Rightarrow> ('e + 'a) \<times> 'w"

type_synonym ('e, 'a, 'w) retry_run = "('e + 'a option) \<times> effect list \<times> 'w"

function wrapper_loop ::
  "int \<Rightarrow> rat \<Rightarrow> ('e \<Rightarrow> bool) \<Rightarrow> ('e, 'a, 'w) operation \<Rightarrow> int \<Rightarrow> rat \<Rightarrow> 'w
    \<Rightarrow> ('e, 'a, 'w) retry_run" where
  "wrapper_loop max_attempts backoff exceptions func attempt delay w =
     (if attempt < max_attempts then
        (case func w of
           (Inr v, w') \<Rightarrow> (Inr (Some v), [Invoke], w')
         | (Inl e, w') \<Rightarrow>
             if exceptions e then
               if attempt = max_attempts - 1 then (Inl e, [Invoke], w')
               else
                 (case wrapper_loop max_attempts backoff exceptions func
                         (attempt + 1) (delay * backoff) w' of
                    (r, tr, w'') \<Rightarrow> (r, Invoke # Sleep delay # tr, w''))
             else (Inl e, [Invoke], w'))
      else (Inr None, [], w))"
  by pat_completeness auto
termination
  by (relation "measure (\<lambda>(m, b, ex, f, a, d, w). nat (m - a))") auto

definition retry ::
  "int \<Rightarrow> rat \<Rightarrow> rat \<Rightarrow> ('e \<Rightarrow> bool) \<Rightarrow> ('e, 'a, 'w) operation \<Rightarrow> 'w \<Rightarrow> ('e, 'a, 'w) retry_run" where
  "retry max_attempts delay backoff exceptions func w =
     wrapper_loop max_attempts backoff exceptions func 0 delay w"

text \<open>
  An operation that, started in world \<open>w\<close>, raises a retryable exception at each of its
  first \<open>k\<close> calls and returns \<open>v\<close> at the next one; and an operation that raises a
  retryable exception at each of its first \<open>n\<close> calls.
\<close>

fun fails_then_succeeds ::
  "('e, 'a, 'w) operation \<Rightarrow> ('e \<Rightarrow> bool) \<Rightarrow> 'w \<Rightarrow> nat \<Rightarrow> 'a \<Rightarrow> bool" where
  "fails_then_succeeds func exceptions w 0 v = (fst (func w) = Inr v)"
| "fails_then_succeeds func exceptions w (Suc k) v =
     (case fst (func w) of
        Inl e \<Rightarrow> exceptions e \<and> fails_then_succeeds func exceptions (snd (func w)) k v
      | Inr _ \<Rightarrow> False)"

fun fails_each ::
  "('e, 'a, 'w) operation \<Rightarrow> ('e \<Rightarrow> bool) \<Rightarrow> 'w \<Rightarrow> nat \<Rightarrow> bool" where
  "fails_each func exceptions w 0 = True"
| "fails_each func exceptions w (Suc n) =
     (case fst (func w) of
        Inl e \<Rightarrow> exceptions e \<and> fails_each func exceptions (snd (func w)) n
      | Inr _ \<Rightarrow> False)"

text \<open>The outcome and the next world of the call that follows \<open>k\<close> earlier calls.\<close>

fun nth_call :: "('e, 'a, 'w) operation \<Rightarrow> 'w \<Rightarrow> nat \<Rightarrow> ('e + 'a) \<times> 'w" where
  "nth_call func w 0 = func w"
| "nth_call func w (Suc k) = nth_call func (snd (func w)) k"

text \<open>The backoff schedule: the waits \<open>d\<close>, \<open>d * b\<close>, \<open>d * b\<^sup>2\<close>, ... before retries 1, 2, 3, ...\<close>

definition backoff_schedule :: "rat \<Rightarrow> rat \<Rightarrow> nat \<Rightarrow> rat list" where
  "backoff_schedule d b k = map (\<lambda>i. d * b ^ i) [0..<k]"

text \<open>A test operation: the world is the number of calls so far; it fails while that is below \<open>k\<close>.\<close>

definition flaky :: "nat \<Rightarrow> 'a \<Rightarrow> (string, 'a, nat) operation" where
  "flaky k v n = (if n < k then (Inl ''timeout'', Suc n) else (Inr v, Suc n))"

text \<open>The effects of a call that fails \<open>k\<close> times and then succeeds.\<close>

fun retry_trace :: "rat \<Rightarrow> rat \<Rightarrow> nat \<Rightarrow> effect list" where
  "retry_trace d b 0 = [Invoke]"
| "retry_trace d b (Suc k) = Invoke # Sleep d # retry_trace (d * b) b k"

section \<open>The rate limiter (utils/rate\_limiter.py)\<close>

text \<open>
  The fields of an \<open>AsyncRateLimiter\<close>. \<open>semaphore\<close> is the counter of the
  \<open>asyncio.Semaphore\<close> (\<open>None\<close> when \<open>_semaphore\<close> is \<open>None\<close>).
\<close>

record limiter =
  max_rate :: rat
  max_concurrent :: "int option"
  semaphore :: "nat option"
  last_call :: rat

text \<open>
  \<open>__init__\<close>. The test \<open>if max_concurrent\<close> is false for \<open>None\<close> and for \<open>0\<close>;
  \<open>asyncio.Semaphore\<close> raises \<open>ValueError\<close> for a negative value. \<open>max_rate\<close> is
  stored as it comes.
\<close>

definition limiter_init :: "rat \<Rightarrow> int option \<Rightarrow> py_exn + limiter" where
  "limiter_init r mc =
     (case mc of
        None \<Rightarrow> Inr \<lparr>max_rate = r, max_concurrent = mc, semaphore = None, last_call = 0\<rparr>
      | Some c \<Rightarrow>
          if c = 0 then
            Inr \<lparr>max_rate = r, max_concurrent = mc, semaphore = None, last_call = 0\<rparr>
          else if c < 0 then Inl ValueError
          else
            Inr \<lparr>max_rate = r, max_concurrent = mc, semaphore = Some (nat c), last_call = 0\<rparr>)"

text \<open>
  \<open>__aenter__\<close> runs in up to three pieces, separated by the points where the task may be
  suspended: taking a semaphore slot (\<open>None\<close>: no slot is free, the task waits), the
  timing test of lines 27 to 32 (\<open>Inr (Some d)\<close>: sleep \<open>d\<close> seconds; \<open>Inr None\<close>: go
  on at once; the division \<open>1.0 / self.max_rate\<close> raises for a zero rate), and the store
  into \<open>_last_call\<close> of line 34.
\<close>

definition sem_acquire :: "limiter \<Rightarrow> limiter option" where
  "sem_acquire L =
     (case semaphore L of
        None \<Rightarrow> Some L
      | Some 0 \<Rightarrow> None
      | Some (Suc n) \<Rightarrow> Some (L\<lparr>semaphore := Some n\<rparr>))"

definition gate :: "limiter \<Rightarrow> rat \<Rightarrow> py_exn + rat option" where
  "gate L current_time =
     (if max_rate L = 0 then Inl ZeroDivisionError
      else
        let min_interval = 1 / max_rate L;
            time_since_last_call = current_time - last_call L
        in if time_since_last_call < min_interval
           then Inr (Some (min_interval - time_since_last_call))
           else Inr None)"

definition stamp :: "limiter \<Rightarrow> rat \<Rightarrow> limiter" where
  "stamp L t = L\<lparr>last_call := t\<rparr>"

text \<open>\<open>__aexit__\<close> ignores the exception it is told about and releases the slot, if any.\<close>

definition aexit :: "limiter \<Rightarrow> py_exn option \<Rightarrow> limiter" where
  "aexit L exc =
     (case semaphore L of
        None \<Rightarrow> L
      | Some n \<Rightarrow> L\<lparr>semaphore := Some (Suc n)\<rparr>)"

subsection \<open>Tasks sharing one limiter\<close>

text \<open>
  Tasks of one event loop interleave only where they are suspended, so each piece above is
  atomic. A task is \<open>Ready\<close> before \<open>__aenter__\<close> (also while it waits for a slot),
  \<open>Sleeping t\<close> inside \<open>asyncio.sleep\<close> until the clock reaches \<open>t\<close>, \<open>Inside\<close> the
  \<open>async with\<close> block once \<open>__aenter__\<close> has completed, \<open>Exited\<close> after \<open>__aexit__\<close>,
  and \<open>Failed e\<close> when \<open>__aenter__\<close> raised \<open>e\<close> (then \<open>__aexit__\<close> is not called).
  \<open>admitted\<close> logs every store into \<open>_last_call\<close>: the task and the stored time.
\<close>

datatype pc = Ready | Sleeping rat | Inside | Exited | Failed py_exn

record system =
  lim :: limiter
  clock :: rat
  tasks :: "pc list"
  admitted :: "(nat \<times> rat) list"

text \<open>
  \<open>Enter i\<close>: task \<open>i\<close> starts \<open>__aenter__\<close> and runs to its first suspension or to the
  end; \<open>Wake i\<close>: its sleep is over and it runs line 34; \<open>Exit i exc\<close>: it leaves the block,
  normally or with the exception \<open>exc\<close>; \<open>Tick d\<close>: \<open>d\<close> seconds pass. An event that
  cannot happen in the state gives \<open>None\<close>.
\<close>

datatype event = Enter nat | Wake nat | Exit nat "py_exn option" | Tick rat

fun step :: "system \<Rightarrow> event \<Rightarrow> system option" where
  "step s (Enter i) =
     (if i < length (tasks s) \<and> tasks s ! i = Ready then
        (case sem_acquire (lim s) of
           None \<Rightarrow> None
         | Some L \<Rightarrow>
             (case gate L (clock s) of
                Inl e \<Rightarrow> Some (s\<lparr>lim := L, tasks := (tasks s)[i := Failed e]\<rparr>)
              | Inr (Some d) \<Rightarrow>
                  Some (s\<lparr>lim := L, tasks := (tasks s)[i := Sleeping (clock s + d)]\<rparr>)
              | Inr None \<Rightarrow>
                  Some (s\<lparr>lim := stamp L (clock s), tasks := (tasks s)[i := Inside],
                          admitted := admitted s @ [(i, clock s)]\<rparr>)))
      else None)"
| "step s (Wake i) =
     (if i < length (tasks s) then
        (case tasks s ! i of
           Sleeping t \<Rightarrow>
             if t \<le> clock s then
               Some (s\<lparr>lim := stamp (lim s) (clock s), tasks := (tasks s)[i := Inside],
                       admitted := admitted s @ [(i, clock s)]\<rparr>)
             else None
         | _ \<Rightarrow> None)
      else None)"
| "step s (Exit i exc) =
     (if i < length (tasks s) \<and> tasks s ! i = Inside then
        Some (s\<lparr>lim := aexit (lim s) exc, tasks := (tasks s)[i := Exited]\<rparr>)
      else None)"
| "step s (Tick d) = (if 0 \<le> d then Some (s\<lparr>clock := clock s + d\<rparr>) else None)"

fun run :: "system \<Rightarrow> event list \<Rightarrow> system option" where
  "run s [] = Some s"
| "run s (ev # evs) = (case step s ev of None \<Rightarrow> None | Some s' \<Rightarrow> run s' evs)"

definition boot :: "limiter \<Rightarrow> nat \<Rightarrow> rat \<Rightarrow> system" where
  "boot L n t0 = \<lparr>lim = L, clock = t0, tasks = replicate n Ready, admitted = []\<rparr>"

text \<open>The number of tasks that have completed \<open>__aenter__\<close> and not yet run \<open>__aexit__\<close>.\<close>

definition inside :: "system \<Rightarrow> nat" where
  "inside s = length (filter (\<lambda>p. p = Inside) (tasks s))"

text \<open>A task that holds a slot of the semaphore, if there is one.\<close>

definition busy :: "pc \<Rightarrow> bool" where
  "busy p = (p \<noteq> Ready \<and> p \<noteq> Exited)"

definition cap_inv :: "nat \<Rightarrow> system \<Rightarrow> bool" where
  "cap_inv c s =
     (case semaphore (lim s) of
        None \<Rightarrow> False
      | Some v \<Rightarrow> v + length (filter busy (tasks s)) = c)"

text \<open>Any two of the times are at least \<open>gap\<close> apart.\<close>

fun well_spaced :: "rat \<Rightarrow> rat list \<Rightarrow> bool" where
  "well_spaced gap [] = True"
| "well_spaced gap (t # ts) = (list_all (\<lambda>u. gap \<le> \<bar>u - t\<bar>) ts \<and> well_spaced gap ts)"

subsection \<open>One task alone\<close>

text \<open>
  \<open>__aenter__\<close> run by a task on its own, from clock \<open>now\<close>: the sleep, if any, lasts
  exactly as long as asked. The result is the clock at the end, with the limiter and the
  effects.
\<close>

definition aenter :: "limiter \<Rightarrow> rat \<Rightarrow> rat res \<times> limiter \<times> effect list" where
  "aenter L now =
     (case sem_acquire L of
        None \<Rightarrow> (Blocks, L, [])
      | Some L1 \<Rightarrow>
          (case gate L1 now of
             Inl e \<Rightarrow> (Raises e, L1, [])
           | Inr (Some d) \<Rightarrow> (Returns (now + d), stamp L1 (now + d), [Sleep d, Admit (now + d)])
           | Inr None \<Rightarrow> (Returns now, stamp L1 now, [Admit now])))"

section \<open>URL validation (crawler/base\_crawler.py)\<close>

subsection \<open>Regular expressions as Python's \<open>re\<close> matches them\<close>

text \<open>
  Strings are lists of characters with codes 0 to 255. A character class is a literal, a
  range, \<open>\d\<close>, \<open>\S\<close> or a union of classes. The pattern is compiled with
  \<open>re.IGNORECASE\<close>, so a literal or a range also matches the character of the other case.
\<close>

datatype cls = Ch char | Rng char char | Digit | NonSpace | AnyOf "cls list"

definition code :: "char \<Rightarrow> nat" where
  "code c = of_char c"

definition swapcase :: "nat \<Rightarrow> nat" where
  "swapcase n =
     (if 65 \<le> n \<and> n \<le> 90 then n + 32
      else if 97 \<le> n \<and> n \<le> 122 then n - 32
      else n)"

definition is_space :: "nat \<Rightarrow> bool" where
  "is_space n = ((9 \<le> n \<and> n \<le> 13) \<or> (28 \<le> n \<and> n \<le> 32) \<or> n = 133 \<or> n = 160)"

fun cmatch :: "cls \<Rightarrow> char \<Rightarrow> bool" where
  "cmatch (Ch x) c = (code c = code x \<or> swapcase (code c) = code x)"
| "cmatch (Rng a b) c =
     ((code a \<le> code c \<and> code c \<le> code b) \<or>
      (code a \<le> swapcase (code c) \<and> swapcase (code c) \<le> code b))"
| "cmatch Digit c = (48 \<le> code c \<and> code c \<le> 57)"
| "cmatch NonSpace c = (\<not> is_space (code c))"
| "cmatch (AnyOf ks) c = list_ex (\<lambda>k. cmatch k c) ks"

text \<open>
  The pattern uses no group reference, no look-around and no lazy operator, so whether it
  matches is a question of the regular language alone. \<open>Upto r n\<close> is \<open>r{0,n}\<close>. The
  matcher takes the derivative of the expression by each character in turn.
\<close>

datatype regex =
  Zero | One | Atom cls | Alt regex regex | Seq regex regex | Star regex | Upto regex nat

fun nullable :: "regex \<Rightarrow> bool" where
  "nullable Zero = False"
| "nullable One = True"
| "nullable (Atom k) = False"
| "nullable (Alt r s) = (nullable r \<or> nullable s)"
| "nullable (Seq r s) = (nullable r \<and> nullable s)"
| "nullable (Star r) = True"
| "nullable (Upto r n) = True"

fun mk_alt :: "regex \<Rightarrow> regex \<Rightarrow> regex" where
  "mk_alt Zero s = s"
| "mk_alt r Zero = r"
| "mk_alt r s = Alt r s"

fun mk_seq :: "regex \<Rightarrow> regex \<Rightarrow> regex" where
  "mk_seq Zero s = Zero"
| "mk_seq r Zero = Zero"
| "mk_seq One s = s"
| "mk_seq r s = Seq r s"

fun deriv :: "char \<Rightarrow> regex \<Rightarrow> regex" where
  "deriv c Zero = Zero"
| "deriv c One = Zero"
| "deriv c (Atom k) = (if cmatch k c then One else Zero)"
| "deriv c (Alt r s) = mk_alt (deriv c r) (deriv c s)"
| "deriv c (Seq r s) =
     (if nullable r then mk_alt (mk_seq (deriv c r) s) (deriv c s) else mk_seq (deriv c r) s)"
| "deriv c (Star r) = mk_seq (deriv c r) (Star r)"
| "deriv c (Upto r 0) = Zero"
| "deriv c (Upto r (Suc n)) = mk_seq (deriv c r) (Upto r n)"

definition fullmatch :: "regex \<Rightarrow> string \<Rightarrow> bool" where
  "fullmatch r s = nullable (foldl (\<lambda>r c. deriv c r) r s)"

text \<open>
  \<open>pattern.match(s)\<close> for a pattern of the form \<open>^r$\<close>: the whole of \<open>s\<close> is in the
  language of \<open>r\<close>, or \<open>s\<close> ends with a newline and the rest is (\<open>$\<close> also matches just
  before a newline that ends the string).
\<close>

definition re_match :: "regex \<Rightarrow> string \<Rightarrow> bool" where
  "re_match r s = (fullmatch r s \<or> (s \<noteq> [] \<and> last s = CHR 0x0A \<and> fullmatch r (butlast s)))"

text \<open>The operators of the pattern syntax: a literal string, \<open>r?\<close>, \<open>r+\<close>, \<open>r{m,n}\<close>.\<close>

fun lit :: "string \<Rightarrow> regex" where
  "lit [] = One"
| "lit (c # cs) = Seq (Atom (Ch c)) (lit cs)"

definition optional :: "regex \<Rightarrow> regex" where
  "optional r = Alt One r"

definition one_or_more :: "regex \<Rightarrow> regex" where
  "one_or_more r = Seq r (Star r)"

fun exactly :: "regex \<Rightarrow> nat \<Rightarrow> regex" where
  "exactly r 0 = One"
| "exactly r (Suc n) = Seq r (exactly r n)"

definition rep :: "regex \<Rightarrow> nat \<Rightarrow> nat \<Rightarrow> regex" where
  "rep r m n = Seq (exactly r m) (Upto r (n - m))"

subsection \<open>The language of a regular expression\<close>

text \<open>
  What the matcher has to decide: the set of strings an expression stands for. The matcher
  is shown below to decide it (\<open>fullmatch_lang\<close>).
\<close>

definition conc :: "string set \<Rightarrow> string set \<Rightarrow> string set" where
  "conc A B = {xs @ ys | xs ys. xs \<in> A \<and> ys \<in> B}"

fun pow :: "string set \<Rightarrow> nat \<Rightarrow> string set" where
  "pow A 0 = {[]}"
| "pow A (Suc n) = conc A (pow A n)"

fun lang :: "regex \<Rightarrow> string set" where
  "lang Zero = {}"
| "lang One = {[]}"
| "lang (Atom k) = {[c] | c. cmatch k c}"
| "lang (Alt r s) = lang r \<union> lang s"
| "lang (Seq r s) = conc (lang r) (lang s)"
| "lang (Star r) = (\<Union>n. pow (lang r) n)"
| "lang (Upto r n) = (\<Union>k \<in> {..n}. pow (lang r) k)"

subsection \<open>\<open>BaseCrawler.validate_url\<close>\<close>

text \<open>
  The pattern, piece by piece:
  \<^verbatim>\<open>^https?://\<close>
  \<^verbatim>\<open>(?:(?:[A-Z0-9](?:[A-Z0-9-]{0,61}[A-Z0-9])?\.)+[A-Z]{2,6}\.?|\<close>
  \<^verbatim>\<open>localhost|\<close>
  \<^verbatim>\<open>\d{1,3}\.\d{1,3}\.\d{1,3}\.\d{1,3})\<close>
  \<^verbatim>\<open>(?::\d+)?\<close>
  \<^verbatim>\<open>(?:/?|[/?]\S+)$\<close>
\<close>

definition alnum :: cls where
  "alnum = AnyOf [Rng CHR ''A'' CHR ''Z'', Rng CHR ''0'' CHR ''9'']"

definition alnum_dash :: cls where
  "alnum_dash = AnyOf [Rng CHR ''A'' CHR ''Z'', Rng CHR ''0'' CHR ''9'', Ch CHR ''-'']"

definition domain_label :: regex where
  "domain_label =
     Seq (Atom alnum)
       (Seq (optional (Seq (rep (Atom alnum_dash) 0 61) (Atom alnum))) (lit ''.''))"

definition domain_name :: regex where
  "domain_name =
     Seq (one_or_more domain_label) (Seq (rep (Atom (Rng CHR ''A'' CHR ''Z'')) 2 6) (optional (lit ''.'')))"

definition ip_literal :: regex where
  "ip_literal =
     Seq (rep (Atom Digit) 1 3) (Seq (lit ''.'')
    (Seq (rep (Atom Digit) 1 3) (Seq (lit ''.'')
    (Seq (rep (Atom Digit) 1 3) (Seq (lit ''.'')
         (rep (Atom Digit) 1 3))))))"

definition url_pattern :: regex where
  "url_pattern =
     Seq (lit ''http'') (Seq (optional (lit ''s'')) (Seq (lit ''://'')
    (Seq (Alt domain_name (Alt (lit ''localhost'') ip_literal))
    (Seq (optional (Seq (lit '':'') (one_or_more (Atom Digit))))
         (Alt (optional (lit ''/''))
              (Seq (Atom (AnyOf [Ch CHR ''/'', Ch CHR ''?''])) (one_or_more (Atom NonSpace))))))))"

definition validate_url :: "string \<Rightarrow> bool" where
  "validate_url url = re_match url_pattern url"

section \<open>The crawlers (crawler/)\<close>

subsection \<open>Objects, the network and the parser\<close>

text \<open>
  \<open>BaseCrawler.__init__\<close> assigns \<open>urls\<close>, \<open>max_workers\<close> and \<open>logger\<close>, and nothing else.
  The subclasses read \<open>self.max_retries\<close> and \<open>self.timeout\<close> and call
  \<open>self._log_error\<close>, which no class of the hierarchy defines: an object has them only
  when they were assigned from outside. A field that is \<open>None\<close> (or \<open>False\<close> for
  \<open>has_log_error\<close>) is an attribute the object does not have, and reading it raises
  \<open>AttributeError\<close>.
\<close>

record crawler =
  urls :: "string list"
  max_workers :: int
  max_retries :: "int option"
  timeout :: "rat option"
  has_log_error :: bool

record async_crawler = crawler +
  rate_limiter :: limiter

definition base_init :: "string list \<Rightarrow> int \<Rightarrow> crawler" where
  "base_init us mw =
     \<lparr>urls = us, max_workers = mw, max_retries = None, timeout = None, has_log_error = False\<rparr>"

text \<open>\<open>AsyncCrawler.__init__\<close> adds \<open>AsyncRateLimiter(max_rate=10)\<close>, built by \<open>limiter_init\<close>.\<close>

definition async_init :: "string list \<Rightarrow> int \<Rightarrow> py_exn + async_crawler" where
  "async_init us mw =
     (case limiter_init 10 None of
        Inl e \<Rightarrow> Inl e
      | Inr L \<Rightarrow>
          Inr \<lparr>urls = us, max_workers = mw, max_retries = None, timeout = None,
               has_log_error = False, rate_limiter = L\<rparr>)"

text \<open>An object whose three missing attributes have been assigned after construction.\<close>

definition supplied :: "int \<Rightarrow> rat \<Rightarrow> 'a crawler_scheme \<Rightarrow> 'a crawler_scheme" where
  "supplied n t c = c\<lparr>max_retries := Some n, timeout := Some t, has_log_error := True\<rparr>"

text \<open>
  What lies outside the repository is a parameter. \<open>http_get w url t\<close> is the HTTP client
  (\<open>requests.get\<close>, \<open>session.get\<close>) in the world \<open>w\<close>: it answers with a status and a
  body, or raises the client library's own exception (\<open>requests.RequestException\<close>,
  \<open>aiohttp.ClientError\<close>, \<open>asyncio.TimeoutError\<close>) with a message; it also gives the next
  world. \<open>http_error_text\<close> is the message of the exception that \<open>raise_for_status\<close>
  raises. \<open>job_titles body\<close> is the parser: for each \<open>div\<close> of class \<open>job-posting\<close>, in
  order, the text of its first \<open>h2\<close>, or \<open>None\<close> when it has no \<open>h2\<close>.
\<close>

datatype http_outcome = Response int string | TransportError string

record 'w env =
  http_get :: "'w \<Rightarrow> string \<Rightarrow> rat \<Rightarrow> http_outcome \<times> 'w"
  http_error_text :: "int \<Rightarrow> string \<Rightarrow> string"
  job_titles :: "string \<Rightarrow> string option list"

text \<open>
  \<open>raise_for_status\<close>: \<open>requests\<close> raises for a status from 400 to 599, \<open>aiohttp\<close> for
  any status from 400 on.
\<close>

definition requests_bad_status :: "int \<Rightarrow> bool" where
  "requests_bad_status st = (400 \<le> st \<and> st < 600)"

definition aiohttp_bad_status :: "int \<Rightarrow> bool" where
  "aiohttp_bad_status st = (400 \<le> st)"

text \<open>A dictionary with string keys, in insertion order.\<close>

datatype pyval = VStr string | VInt int | VList "string list"

type_synonym pydict = "(string \<times> pyval) list"

definition requests_made :: "effect list \<Rightarrow> nat" where
  "requests_made tr = length (filter (\<lambda>e. case e of Request u t \<Rightarrow> True | _ \<Rightarrow> False) tr)"

definition admissions :: "effect list \<Rightarrow> nat" where
  "admissions tr = length (filter (\<lambda>e. case e of Admit t \<Rightarrow> True | _ \<Rightarrow> False) tr)"

subsection \<open>\<open>SequentialCrawler\<close>\<close>

text \<open>
  \<open>fetch_url\<close>: the result is the dictionary returned, or the exception that leaves the
  function. Only \<open>requests.RequestException\<close> is caught; the \<open>AttributeError\<close> of
  \<open>job.find('h2').text\<close> on a posting without \<open>h2\<close> is not. \<open>rate_limit()\<close> sleeps one
  second. The timeout handed to \<open>requests.get\<close> is \<open>self.max_workers\<close>; \<open>requests\<close>
  refuses a timeout that is not positive with \<open>ValueError\<close>, before anything is sent, and
  \<open>ValueError\<close> is not a \<open>RequestException\<close>.
\<close>

definition seq_fetch_url ::
  "'w env \<Rightarrow> 'c crawler_scheme \<Rightarrow> string \<Rightarrow> 'w \<Rightarrow> (py_exn + pydict) \<times> effect list \<times> 'w" where
  "seq_fetch_url env c url w =
     (if \<not> validate_url url then (Inr [], [LogMsg ''Invalid URL''], w)
      else if max_workers c \<le> 0 then (Inl ValueError, [Sleep 1], w)
      else
        (case http_get env w url (of_int (max_workers c)) of
           (TransportError msg, w') \<Rightarrow>
             (Inr [(''url'', VStr url), (''error'', VStr msg)],
              [Sleep 1, Request url (of_int (max_workers c)), LogMsg ''Error fetching''], w')
         | (Response st body, w') \<Rightarrow>
             if requests_bad_status st then
               (Inr [(''url'', VStr url), (''error'', VStr (http_error_text env st url))],
                [Sleep 1, Request url (of_int (max_workers c)), LogMsg ''Error fetching''], w')
             else
               (case those (job_titles env body) of
                  None \<Rightarrow>
                    (Inl (AttributeError ''text''),
                     [Sleep 1, Request url (of_int (max_workers c))], w')
                | Some titles \<Rightarrow>
                    (Inr [(''url'', VStr url), (''status_code'', VInt st),
                          (''job_count'', VInt (int (length (job_titles env body)))),
                          (''titles'', VList titles)],
                     [Sleep 1, Request url (of_int (max_workers c))], w'))))"

text \<open>\<open>crawl\<close>: the loop over \<open>self.urls\<close>; an exception of \<open>fetch_url\<close> ends it.\<close>

fun seq_crawl_loop ::
  "'w env \<Rightarrow> 'c crawler_scheme \<Rightarrow> string list \<Rightarrow> 'w
    \<Rightarrow> (py_exn + pydict list) \<times> effect list \<times> 'w" where
  "seq_crawl_loop env c [] w = (Inr [], [], w)"
| "seq_crawl_loop env c (url # rest) w =
     (case seq_fetch_url env c url w of
        (Inl e, tr, w') \<Rightarrow> (Inl e, tr, w')
      | (Inr result, tr, w') \<Rightarrow>
          (case seq_crawl_loop env c rest w' of
             (Inl e, tr', w'') \<Rightarrow> (Inl e, tr @ tr', w'')
           | (Inr results, tr', w'') \<Rightarrow> (Inr (result # results), tr @ tr', w'')))"

definition seq_crawl ::
  "'w env \<Rightarrow> 'c crawler_scheme \<Rightarrow> 'w \<Rightarrow> (py_exn + pydict list) \<times> effect list \<times> 'w" where
  "seq_crawl env c w = seq_crawl_loop env c (urls c) w"

subsection \<open>\<open>AsyncCrawler\<close>\<close>

text \<open>
  The loop \<open>for attempt in range(self.max_retries)\<close> of \<open>fetch_url\<close>, from the given
  attempt on. \<open>self.timeout\<close> is read inside the \<open>try\<close>, whose handler catches only
  \<open>aiohttp.ClientError\<close> and \<open>asyncio.TimeoutError\<close>; the handler calls
  \<open>self._log_error\<close> first. The loop waits nowhere between two attempts.
  \<open>aiohttp.ClientTimeout\<close> takes any number (a total that is not positive switches the
  timeout off), so the timeout goes to the network as it is.
\<close>

function async_attempts ::
  "'w env \<Rightarrow> 'c crawler_scheme \<Rightarrow> string \<Rightarrow> int \<Rightarrow> int \<Rightarrow> 'w
    \<Rightarrow> string option res \<times> effect list \<times> 'w" where
  "async_attempts env c url retries attempt w =
     (if attempt < retries then
        (case timeout c of
           None \<Rightarrow> (Raises (AttributeError ''timeout''), [], w)
         | Some t \<Rightarrow>
             (case http_get env w url t of
                (out, w') \<Rightarrow>
                  (case (case out of
                           Response st body \<Rightarrow> if aiohttp_bad_status st then None else Some body
                         | TransportError msg \<Rightarrow> None) of
                     Some body \<Rightarrow> (Returns (Some body), [Request url t], w')
                   | None \<Rightarrow>
                       if \<not> has_log_error c then
                         (Raises (AttributeError ''_log_error''), [Request url t], w')
                       else if attempt = retries - 1 then
                         (Returns None, [Request url t, LogMsg ''error''], w')
                       else
                         (case async_attempts env c url retries (attempt + 1) w' of
                            (r, tr, w'') \<Rightarrow> (r, Request url t # LogMsg ''error'' # tr, w'')))))
      else (Returns None, [], w))"
  by pat_completeness auto
termination
  by (relation "measure (\<lambda>(env, c, url, retries, attempt, w). nat (retries - attempt))") auto

text \<open>
  \<open>fetch_url\<close>, run by a task on its own: \<open>async with self.rate_limiter\<close> comes first,
  then the session and the loop. \<open>__aexit__\<close> runs however the block is left. The state
  is the crawler (its limiter changes), the clock and the world.
\<close>

definition raised :: "'a res \<Rightarrow> py_exn option" where
  "raised r = (case r of Raises e \<Rightarrow> Some e | _ \<Rightarrow> None)"

definition async_fetch_url ::
  "'w env \<Rightarrow> async_crawler \<Rightarrow> string \<Rightarrow> rat \<Rightarrow> 'w
    \<Rightarrow> string option res \<times> effect list \<times> async_crawler \<times> rat \<times> 'w" where
  "async_fetch_url env c url now w =
     (case aenter (rate_limiter c) now of
        (Blocks, L, tr) \<Rightarrow> (Blocks, tr, c\<lparr>rate_limiter := L\<rparr>, now, w)
      | (Raises e, L, tr) \<Rightarrow> (Raises e, tr, c\<lparr>rate_limiter := L\<rparr>, now, w)
      | (Returns now', L, tr) \<Rightarrow>
          (case (case max_retries c of
                   None \<Rightarrow> (Raises (AttributeError ''max_retries''), [], w)
                 | Some retries \<Rightarrow> async_attempts env c url retries 0 w) of
             (r, tr', w') \<Rightarrow>
               (r, tr @ tr', c\<lparr>rate_limiter := aexit L (raised r)\<rparr>, now', w')))"


subsection \<open>\<open>AsyncCrawler.crawl\<close> on the event loop\<close>




















subsection \<open>\<open>ThreadedCrawler\<close>\<close>

text \<open>
  \<open>_fetch_url_thread\<close>: the same loop with \<open>requests\<close>, catching
  \<open>requests.RequestException\<close>, and with no rate limiter. The \<open>ValueError\<close> of
  \<open>requests.get\<close> for a timeout that is not positive is not caught.
\<close>

function thread_attempts ::
  "'w env \<Rightarrow> 'c crawler_scheme \<Rightarrow> string \<Rightarrow> int \<Rightarrow> int \<Rightarrow> 'w
    \<Rightarrow> (py_exn + pydict option) \<times> effect list \<times> 'w" where
  "thread_attempts env c url retries attempt w =
     (if attempt < retries then
        (case timeout c of
           None \<Rightarrow> (Inl (AttributeError ''timeout''), [], w)
         | Some t \<Rightarrow>
             if t \<le> 0 then (Inl ValueError, [], w)
             else
             (case http_get env w url t of
                (out, w') \<Rightarrow>
                  (case (case out of
                           Response st body \<Rightarrow> if requests_bad_status st then None else Some body
                         | TransportError msg \<Rightarrow> None) of
                     Some body \<Rightarrow>
                       (Inr (Some [(''url'', VStr url), (''content'', VStr body)]),
                        [Request url t], w')
                   | None \<Rightarrow>
                       if \<not> has_log_error c then
                         (Inl (AttributeError ''_log_error''), [Request url t], w')
                       else if attempt = retries - 1 then
                         (Inr None, [Request url t, LogMsg ''error''], w')
                       else
                         (case thread_attempts env c url retries (attempt + 1) w' of
                            (r, tr, w'') \<Rightarrow> (r, Request url t # LogMsg ''error'' # tr, w'')))))
      else (Inr None, [], w))"
  by pat_completeness auto
termination
  by (relation "measure (\<lambda>(env, c, url, retries, attempt, w). nat (retries - attempt))") auto

definition fetch_url_thread ::
  "'w env \<Rightarrow> 'c crawler_scheme \<Rightarrow> string \<Rightarrow> 'w \<Rightarrow> (py_exn + pydict option) \<times> effect list \<times> 'w" where
  "fetch_url_thread env c url w =
     (case max_retries c of
        None \<Rightarrow> (Inl (AttributeError ''max_retries''), [], w)
      | Some retries \<Rightarrow> thread_attempts env c url retries 0 w)"

subsection \<open>Outcomes\<close>



text \<open>The three shapes of a dictionary that \<open>SequentialCrawler.fetch_url\<close> returns.\<close>

definition full_success :: "string \<Rightarrow> pydict \<Rightarrow> bool" where
  "full_success url d =
     (map fst d = [''url'', ''status_code'', ''job_count'', ''titles''] \<and>
      map_of d ''url'' = Some (VStr url))"

definition full_failure :: "string \<Rightarrow> pydict \<Rightarrow> bool" where
  "full_failure url d =
     (map fst d = [''url'', ''error''] \<and> map_of d ''url'' = Some (VStr url))"

definition seq_outcome :: "string \<Rightarrow> pydict \<Rightarrow> bool" where
  "seq_outcome url d =
     (if validate_url url then full_success url d \<or> full_failure url d else d = [])"

subsection \<open>Test inputs\<close>

text \<open>
  The target list of the scenario, and three networks whose answer is the same for every
  target and every attempt: status 200 with a page without job postings, status 404, and
  status 200 with an empty body.
\<close>

definition scenario_urls :: "string list" where
  "scenario_urls = [''https://a.test/x'', ''not a url'', ''https://a.test/y'']"

definition always_answers :: "http_outcome \<Rightarrow> unit env" where
  "always_answers out =
     \<lparr>http_get = (\<lambda>w url t. (out, w)),
      http_error_text = (\<lambda>st url. ''HTTP error''),
      job_titles = (\<lambda>body. [])\<rparr>"

definition always_ok :: "unit env" where
  "always_ok = always_answers (Response 200 ''<html></html>'')"



text \<open>
  The network of the scenario: the world counts the requests; the first two fail with a
  timeout and every later one is answered with status 200.
\<close>

definition fails_twice :: "nat env" where
  "fails_twice =
     \<lparr>http_get = (\<lambda>w url t.
        (if w < 2 then TransportError ''timeout'' else Response 200 ''<html></html>'', Suc w)),
      http_error_text = (\<lambda>st url. ''HTTP error''),
      job_titles = (\<lambda>body. [])\<rparr>"

text \<open>What \<open>SequentialCrawler.fetch_url\<close> returns for a page of these networks with status 200.\<close>

definition ok_page :: "string \<Rightarrow> pydict" where
  "ok_page url =
     [(''url'', VStr url), (''status_code'', VInt 200), (''job_count'', VInt 0),
      (''titles'', VList [])]"

subsection \<open>Networks with a fixed behaviour\<close>






subsection \<open>States of the event loop\<close>








section \<open>Properties of the retry decorator\<close>

declare wrapper_loop.simps [simp del]

lemma upt_Suc_shift: "[0..<Suc k] = 0 # map Suc [0..<k]"
  by (simp add: upt_conv_Cons map_Suc_upt del: upt_Suc)

lemma invocations_retry_trace: "invocations (retry_trace d b k) = Suc k"
  by (induction k arbitrary: d) (simp_all add: invocations_def)

lemma retry_trace_concat:
  "retry_trace d b k = concat (map (\<lambda>i. [Invoke, Sleep (d * b ^ i)]) [0..<k]) @ [Invoke]"
proof (induction k arbitrary: d)
  case 0
  show ?case by simp
next
  case (Suc k)
  show ?case using Suc[of "d * b"]
    by (simp add: upt_Suc_shift comp_def mult.assoc del: upt_Suc)
qed

lemma sleeps_Cons:
  "sleeps (e # tr) = (case sleep_of e of None \<Rightarrow> sleeps tr | Some d \<Rightarrow> d # sleeps tr)"
  by (simp add: sleeps_def List.map_filter_simps split: option.splits)

lemma backoff_schedule_Suc: "backoff_schedule d b (Suc k) = d # backoff_schedule (d * b) b k"
  by (simp add: backoff_schedule_def upt_Suc_shift comp_def mult.assoc del: upt_Suc)

lemma sleeps_retry_trace: "sleeps (retry_trace d b k) = backoff_schedule d b k"
proof (induction k arbitrary: d)
  case 0
  show ?case by (simp add: sleeps_def List.map_filter_simps backoff_schedule_def)
next
  case (Suc k)
  then show ?case by (simp add: sleeps_Cons backoff_schedule_Suc)
qed

lemma wrapper_loop_succeeds:
  "fails_then_succeeds func ex w k v \<Longrightarrow> a + int k < m \<Longrightarrow>
   \<exists>w'. wrapper_loop m b ex func a d w = (Inr (Some v), retry_trace d b k, w')"
proof (induction k arbitrary: w a d)
  case 0
  then show ?case
    by (subst wrapper_loop.simps) (auto split: prod.splits sum.splits)
next
  case (Suc k)
  obtain r w1 where f: "func w = (r, w1)" by (cases "func w")
  from Suc.prems(1) f obtain e where e: "r = Inl e" "ex e"
    and rest: "fails_then_succeeds func ex w1 k v"
    by (auto split: sum.splits)
  from Suc.prems(2) have "(a + 1) + int k < m" by simp
  from Suc.IH[OF rest this, of "d * b"] obtain w' where
    "wrapper_loop m b ex func (a + 1) (d * b) w1 = (Inr (Some v), retry_trace (d * b) b k, w')"
    by blast
  with f e Suc.prems(2) show ?case
    by (subst wrapper_loop.simps) auto
qed

lemma wrapper_loop_exhausts:
  "fails_each func ex w n \<Longrightarrow> 0 < n \<Longrightarrow> a + int n = m \<Longrightarrow>
   \<exists>e tr w'. wrapper_loop m b ex func a d w = (Inl e, tr, w') \<and> ex e \<and> invocations tr = n"
proof (induction n arbitrary: w a d)
  case 0
  then show ?case by simp
next
  case (Suc n)
  obtain r w1 where f: "func w = (r, w1)" by (cases "func w")
  from Suc.prems(1) f obtain e where e: "r = Inl e" "ex e"
    and rest: "fails_each func ex w1 n"
    by (auto split: sum.splits)
  show ?case
  proof (cases n)
    case 0
    with f e Suc.prems(3) show ?thesis
      by (subst wrapper_loop.simps) (auto simp: invocations_def)
  next
    case (Suc n')
    then have "0 < n" by simp
    moreover from Suc.prems(3) have "(a + 1) + int n = m" by simp
    ultimately obtain e' tr w' where
      r: "wrapper_loop m b ex func (a + 1) (d * b) w1 = (Inl e', tr, w')" "ex e'"
         "invocations tr = n"
      using Suc.IH[OF rest, of "a + 1" "d * b"] by blast
    with f e Suc.prems(3) show ?thesis
      by (subst wrapper_loop.simps) (auto simp: invocations_def)
  qed
qed

lemma flaky_fails_then_succeeds: "fails_then_succeeds (flaky 2 v) (\<lambda>e. True) 0 2 v"
  by (simp add: flaky_def numeral_2_eq_2)

lemma flaky_fails_each: "fails_each (flaky 5 v) (\<lambda>e. True) 0 (nat 3)"
  by (simp add: flaky_def eval_nat_numeral)

text \<open>
  C2. With \<open>max_attempts \<ge> 1\<close>: an operation that raises a retryable exception exactly
  \<open>k < max_attempts\<close> times and then returns \<open>v\<close> makes the wrapped call return \<open>v\<close>
  after exactly \<open>k + 1\<close> invocations; an operation that raises a retryable exception every
  time is invoked exactly \<open>max_attempts\<close> times, and the wrapped call raises.
\<close>

theorem retry_invocation_count:
  assumes "1 \<le> max_attempts"
  shows "(int k < max_attempts \<and> fails_then_succeeds func exceptions w k v \<longrightarrow>
            fst (retry max_attempts delay backoff exceptions func w) = Inr (Some v) \<and>
            invocations (fst (snd (retry max_attempts delay backoff exceptions func w))) = k + 1) \<and>
         (fails_each func exceptions w (nat max_attempts) \<longrightarrow>
            (\<exists>e. fst (retry max_attempts delay backoff exceptions func w) = Inl e \<and> exceptions e) \<and>
            invocations (fst (snd (retry max_attempts delay backoff exceptions func w)))
              = nat max_attempts)"
proof (intro conjI impI)
  assume h: "int k < max_attempts \<and> fails_then_succeeds func exceptions w k v"
  then obtain w' where
    "retry max_attempts delay backoff exceptions func w
       = (Inr (Some v), retry_trace delay backoff k, w')"
    unfolding retry_def using wrapper_loop_succeeds[of func exceptions w k v 0 max_attempts]
    by auto
  then show "fst (retry max_attempts delay backoff exceptions func w) = Inr (Some v)"
    and "invocations (fst (snd (retry max_attempts delay backoff exceptions func w))) = k + 1"
    by (simp_all add: invocations_retry_trace)
next
  assume h: "fails_each func exceptions w (nat max_attempts)"
  from assms have "0 < nat max_attempts" "0 + int (nat max_attempts) = max_attempts"
    by simp_all
  from wrapper_loop_exhausts[OF h this] obtain e tr w' where
    "retry max_attempts delay backoff exceptions func w = (Inl e, tr, w')" "exceptions e"
    "invocations tr = nat max_attempts"
    unfolding retry_def by blast
  then show "\<exists>e. fst (retry max_attempts delay backoff exceptions func w) = Inl e \<and> exceptions e"
    and "invocations (fst (snd (retry max_attempts delay backoff exceptions func w)))
           = nat max_attempts"
    by simp_all
qed

theorem retry_invocation_count_witness:
  "(1::int) \<le> 3 \<and> int 2 < 3 \<and>
   fails_then_succeeds (flaky 2 ''body'') (\<lambda>e. True) 0 2 ''body'' \<and>
   fst (retry 3 1 2 (\<lambda>e. True) (flaky 2 ''body'') 0) = Inr (Some ''body'') \<and>
   invocations (fst (snd (retry 3 1 2 (\<lambda>e. True) (flaky 2 ''body'') 0))) = 3 \<and>
   fails_each (flaky 5 ''body'') (\<lambda>e. True) 0 (nat 3) \<and>
   (\<exists>e. fst (retry 3 1 2 (\<lambda>e. True) (flaky 5 ''body'') 0) = Inl e) \<and>
   invocations (fst (snd (retry 3 1 2 (\<lambda>e. True) (flaky 5 ''body'') 0))) = 3"
  using retry_invocation_count[of 3 2 "flaky 2 ''body''" "\<lambda>e. True" 0 "''body''" 1 2]
        retry_invocation_count[of 3 2 "flaky 5 ''body''" "\<lambda>e. True" 0 "''body''" 1 2]
        flaky_fails_then_succeeds[of "''body''"] flaky_fails_each[of "''body''"]
  by simp

text \<open>Every call of the wrapper, however it ends.\<close>

lemma wrapper_loop_trace:
  "a < m \<Longrightarrow>
   \<exists>k. a + int k < m \<and> fails_each func ex w k \<and>
       fst (snd (wrapper_loop m b ex func a d w)) = retry_trace d b k \<and>
       snd (snd (wrapper_loop m b ex func a d w)) = snd (nth_call func w k) \<and>
       (case fst (nth_call func w k) of
          Inr v \<Rightarrow> fst (wrapper_loop m b ex func a d w) = Inr (Some v)
        | Inl e \<Rightarrow>
            fst (wrapper_loop m b ex func a d w) = Inl e \<and> (ex e \<longrightarrow> a + int k = m - 1))"
proof (induction m b ex func a d w rule: wrapper_loop.induct)
  case (1 m b ex func a d w)
  obtain r w1 where f: "func w = (r, w1)" by (cases "func w")
  show ?case
  proof (cases r)
    case (Inr v)
    with f "1.prems" have
      "wrapper_loop m b ex func a d w = (Inr (Some v), [Invoke], w1)"
      by (subst wrapper_loop.simps) simp
    with f Inr "1.prems" show ?thesis
      by (intro exI[of _ 0]) simp
  next
    case (Inl e)
    show ?thesis
    proof (cases "ex e \<and> a \<noteq> m - 1")
      case False
      with f Inl "1.prems" have
        "wrapper_loop m b ex func a d w = (Inl e, [Invoke], w1)"
        by (subst wrapper_loop.simps) auto
      with f Inl "1.prems" False show ?thesis
        by (intro exI[of _ 0]) auto
    next
      case True
      with "1.prems" have lt: "a + 1 < m" by simp
      from True have t: "ex e" "a \<noteq> m - 1" by simp_all
      from "1.IH"[OF "1.prems" f[symmetric] Inl t lt]
      obtain k where k: "a + 1 + int k < m" "fails_each func ex w1 k"
        "fst (snd (wrapper_loop m b ex func (a + 1) (d * b) w1)) = retry_trace (d * b) b k"
        "snd (snd (wrapper_loop m b ex func (a + 1) (d * b) w1)) = snd (nth_call func w1 k)"
        "(case fst (nth_call func w1 k) of
            Inr v \<Rightarrow> fst (wrapper_loop m b ex func (a + 1) (d * b) w1) = Inr (Some v)
          | Inl e \<Rightarrow>
              fst (wrapper_loop m b ex func (a + 1) (d * b) w1) = Inl e \<and>
              (ex e \<longrightarrow> a + 1 + int k = m - 1))"
        by auto
      obtain r' tr' w' where
        w: "wrapper_loop m b ex func (a + 1) (d * b) w1 = (r', tr', w')"
        by (cases "wrapper_loop m b ex func (a + 1) (d * b) w1")
      with f Inl True "1.prems" have
        u: "wrapper_loop m b ex func a d w = (r', Invoke # Sleep d # tr', w')"
        by (subst wrapper_loop.simps) simp
      from k w u f Inl True show ?thesis
        by (intro exI[of _ "Suc k"]) (auto split: sum.splits)
    qed
  qed
qed

section \<open>Properties of the rate limiter\<close>

lemma count_update:
  "i < length xs \<Longrightarrow>
   length (filter P (xs[i := y])) + (if P (xs ! i) then 1 else 0) =
   length (filter P xs) + (if P y then 1 else 0)"
proof (induction xs arbitrary: i)
  case Nil
  then show ?case by simp
next
  case (Cons x xs)
  then show ?case by (cases i) auto
qed

lemma step_cap_inv:
  assumes "cap_inv c s" and "step s ev = Some s'"
  shows "cap_inv c s'"
proof (cases ev)
  case (Enter i)
  with assms show ?thesis
    using count_update[of i "tasks s" busy]
    by (auto simp: cap_inv_def sem_acquire_def stamp_def busy_def
        split: if_splits option.splits nat.splits sum.splits)
next
  case (Wake i)
  with assms show ?thesis
    using count_update[of i "tasks s" busy Inside]
    by (auto simp: cap_inv_def stamp_def busy_def split: if_splits pc.splits option.splits)
next
  case (Exit i exc)
  with assms show ?thesis
    using count_update[of i "tasks s" busy Exited]
    by (auto simp: cap_inv_def aexit_def busy_def split: if_splits option.splits)
next
  case (Tick d)
  with assms show ?thesis
    by (auto simp: cap_inv_def split: if_splits option.splits)
qed

lemma run_cap_inv: "cap_inv c s \<Longrightarrow> run s evs = Some s' \<Longrightarrow> cap_inv c s'"
proof (induction evs arbitrary: s)
  case Nil
  then show ?case by simp
next
  case (Cons ev evs)
  then show ?case by (auto split: option.splits dest: step_cap_inv)
qed

lemma inside_le_busy: "length (filter (\<lambda>p. p = Inside) ps) \<le> length (filter busy ps)"
  by (induction ps) (auto simp: busy_def)

lemma boot_cap_inv:
  "limiter_init r (Some c) = Inr L \<Longrightarrow> 0 < c \<Longrightarrow> cap_inv (nat c) (boot L n t0)"
  by (auto simp: limiter_init_def cap_inv_def boot_def busy_def split: if_splits)

text \<open>
  One task after the other: when the rate is positive, a completed \<open>__aenter__\<close> stores a
  time at least \<open>1 / max_rate\<close> after the time stored before.
\<close>

lemma aenter_alone_spaced:
  assumes "0 < max_rate L" and "aenter L now = (Returns t, L', tr)"
  shows "last_call L' = t \<and> last_call L + 1 / max_rate L \<le> t"
  using assms
  by (auto simp: aenter_def sem_acquire_def gate_def stamp_def Let_def
      split: option.splits nat.splits if_splits)

text \<open>
  A slot can be lost only inside \<open>__aenter__\<close>: with a zero rate the division raises
  after the slot was taken, \<open>__aexit__\<close> is not called, and the next task waits.
\<close>

lemma zero_rate_loses_slot:
  "run (boot \<lparr>max_rate = 0, max_concurrent = Some 1, semaphore = Some 1, last_call = 0\<rparr> 2 5)
     [Enter 0]
     = Some \<lparr>lim = \<lparr>max_rate = 0, max_concurrent = Some 1, semaphore = Some 0, last_call = 0\<rparr>,
             clock = 5, tasks = [Failed ZeroDivisionError, Ready], admitted = []\<rparr> \<and>
   step \<lparr>lim = \<lparr>max_rate = 0, max_concurrent = Some 1, semaphore = Some 0, last_call = 0\<rparr>,
         clock = 5, tasks = [Failed ZeroDivisionError, Ready], admitted = []\<rparr> (Enter 1) = None"
  by (simp add: boot_def sem_acquire_def gate_def eval_nat_numeral)

text \<open>
  C1. Three tasks share the limiter of an \<open>AsyncCrawler\<close> (\<open>max_rate = 10\<close>, no
  concurrency cap) and call \<open>__aenter__\<close> at clock 5. The first is admitted at once. The
  other two both read \<open>_last_call = 5\<close>, both sleep a tenth of a second, and both store
  5.1 when they wake up: two admissions carry the same time, although the minimum interval
  is a tenth of a second.
\<close>

theorem suspended_tasks_admitted_together:
  "limiter_init 10 None =
     Inr \<lparr>max_rate = 10, max_concurrent = None, semaphore = None, last_call = 0\<rparr> \<and>
   map_option admitted
     (run (boot \<lparr>max_rate = 10, max_concurrent = None, semaphore = None, last_call = 0\<rparr> 3 5)
        [Enter 0, Enter 1, Enter 2, Tick (1 / 10), Wake 1, Wake 2])
     = Some [(0, 5), (1, 51 / 10), (2, 51 / 10)] \<and>
   \<not> well_spaced (1 / 10) (map snd [(0 :: nat, 5), (1, 51 / 10), (2, 51 / 10)])"
  by (simp add: limiter_init_def boot_def sem_acquire_def gate_def stamp_def Let_def)

text \<open>
  C6. A limiter is built with the cap \<open>max_concurrent = c\<close>, \<open>c > 0\<close>, and shared by any
  number of tasks. In every state that a sequence of events reaches, at most \<open>c\<close> tasks
  have completed \<open>__aenter__\<close> without having run \<open>__aexit__\<close>; and every exit from the
  block, with or without an exception, gives back exactly one slot.
\<close>

theorem concurrency_cap:
  assumes "limiter_init r (Some c) = Inr L" and "0 < c"
    and "run (boot L n t0) evs = Some s"
  shows "inside s \<le> nat c \<and>
         (\<forall>i exc s'. step s (Exit i exc) = Some s' \<longrightarrow>
            inside s' + 1 = inside s \<and>
            (\<exists>v. semaphore (lim s) = Some v \<and> semaphore (lim s') = Some (v + 1)))"
proof -
  from assms have inv: "cap_inv (nat c) s"
    using run_cap_inv[OF boot_cap_inv] by blast
  then have "inside s \<le> nat c"
    using inside_le_busy[of "tasks s"]
    by (auto simp: cap_inv_def inside_def split: option.splits)
  moreover have "inside s' + 1 = inside s \<and>
            (\<exists>v. semaphore (lim s) = Some v \<and> semaphore (lim s') = Some (v + 1))"
    if "step s (Exit i exc) = Some s'" for i exc s'
    using that inv count_update[of i "tasks s" "\<lambda>p. p = Inside" Exited]
    by (auto simp: cap_inv_def inside_def aexit_def split: if_splits option.splits)
  ultimately show ?thesis by blast
qed


theorem concurrency_cap_witness:
  "limiter_init 10 (Some 2) =
     Inr \<lparr>max_rate = 10, max_concurrent = Some 2, semaphore = Some 2, last_call = 0\<rparr> \<and>
   (0 :: int) < 2 \<and>
   run (boot \<lparr>max_rate = 10, max_concurrent = Some 2, semaphore = Some 2, last_call = 0\<rparr> 3 5)
     [Enter 0, Enter 1, Tick 1, Wake 1]
     = Some \<lparr>lim = \<lparr>max_rate = 10, max_concurrent = Some 2, semaphore = Some 0, last_call = 6\<rparr>,
             clock = 6, tasks = [Inside, Inside, Ready], admitted = [(0, 5), (1, 6)]\<rparr> \<and>
   inside \<lparr>lim = \<lparr>max_rate = 10, max_concurrent = Some 2, semaphore = Some 0, last_call = 6\<rparr>,
           clock = 6, tasks = [Inside, Inside, Ready], admitted = [(0, 5), (1, 6)]\<rparr> \<le> nat 2 \<and>
   step \<lparr>lim = \<lparr>max_rate = 10, max_concurrent = Some 2, semaphore = Some 0, last_call = 6\<rparr>,
         clock = 6, tasks = [Inside, Inside, Ready], admitted = [(0, 5), (1, 6)]\<rparr>
        (Exit 0 (Some ValueError))
     = Some \<lparr>lim = \<lparr>max_rate = 10, max_concurrent = Some 2, semaphore = Some 1, last_call = 6\<rparr>,
             clock = 6, tasks = [Exited, Inside, Ready], admitted = [(0, 5), (1, 6)]\<rparr> \<and>
   inside \<lparr>lim = \<lparr>max_rate = 10, max_concurrent = Some 2, semaphore = Some 1, last_call = 6\<rparr>,
           clock = 6, tasks = [Exited, Inside, Ready], admitted = [(0, 5), (1, 6)]\<rparr> + 1
     = inside \<lparr>lim = \<lparr>max_rate = 10, max_concurrent = Some 2, semaphore = Some 0, last_call = 6\<rparr>,
               clock = 6, tasks = [Inside, Inside, Ready], admitted = [(0, 5), (1, 6)]\<rparr>"
proof -
  let ?L = "\<lparr>max_rate = 10, max_concurrent = Some 2, semaphore = Some 2, last_call = 0\<rparr>"
  let ?s = "\<lparr>lim = \<lparr>max_rate = 10, max_concurrent = Some 2, semaphore = Some 0, last_call = 6\<rparr>,
             clock = 6, tasks = [Inside, Inside, Ready], admitted = [(0, 5), (1, 6)]\<rparr>"
  let ?s' = "\<lparr>lim = \<lparr>max_rate = 10, max_concurrent = Some 2, semaphore = Some 1, last_call = 6\<rparr>,
             clock = 6, tasks = [Exited, Inside, Ready], admitted = [(0, 5), (1, 6)]\<rparr>"
  have a: "limiter_init 10 (Some 2) = Inr ?L"
    by (simp add: limiter_init_def)
  have b: "(0 :: int) < 2" by simp
  have c: "run (boot ?L 3 5) [Enter 0, Enter 1, Tick 1, Wake 1] = Some ?s"
    by (simp add: boot_def sem_acquire_def gate_def stamp_def Let_def eval_nat_numeral)
  have d: "step ?s (Exit 0 (Some ValueError)) = Some ?s'"
    by (simp add: aexit_def)
  from concurrency_cap[OF a b c] d
  have "inside ?s \<le> nat 2 \<and> inside ?s' + 1 = inside ?s" by blast
  with a b c d show ?thesis by blast
qed

text \<open>
  C9. The constructor never rejects a rate: for every \<open>max_rate\<close>, also zero or
  negative, and no concurrency cap it succeeds, and the limiter has no semaphore, so that
  taking a slot never makes a task wait. With a positive rate the first \<open>__aenter__\<close> is
  decided by the timing test alone: it ends at the later of the clock and \<open>1 / max_rate\<close>.
  With a zero rate it is the first \<open>__aenter__\<close> that raises, on the division.
\<close>

theorem limiter_init_any_rate:
  "limiter_init r None =
     Inr \<lparr>max_rate = r, max_concurrent = None, semaphore = None, last_call = 0\<rparr> \<and>
   sem_acquire \<lparr>max_rate = r, max_concurrent = None, semaphore = None, last_call = 0\<rparr> =
     Some \<lparr>max_rate = r, max_concurrent = None, semaphore = None, last_call = 0\<rparr> \<and>
   (0 < r \<longrightarrow>
      fst (aenter \<lparr>max_rate = r, max_concurrent = None, semaphore = None, last_call = 0\<rparr> now)
        = Returns (max now (1 / r))) \<and>
   (r = 0 \<longrightarrow>
      fst (aenter \<lparr>max_rate = r, max_concurrent = None, semaphore = None, last_call = 0\<rparr> now)
        = Raises ZeroDivisionError)"
  by (auto simp: limiter_init_def sem_acquire_def aenter_def gate_def Let_def max_def)

theorem limiter_init_any_rate_witness:
  "(0 :: rat) < 10 \<and>
   limiter_init 10 None =
     Inr \<lparr>max_rate = 10, max_concurrent = None, semaphore = None, last_call = 0\<rparr> \<and>
   fst (aenter \<lparr>max_rate = 10, max_concurrent = None, semaphore = None, last_call = 0\<rparr> 5)
     = Returns 5 \<and>
   limiter_init 0 None =
     Inr \<lparr>max_rate = 0, max_concurrent = None, semaphore = None, last_call = 0\<rparr> \<and>
   fst (aenter \<lparr>max_rate = 0, max_concurrent = None, semaphore = None, last_call = 0\<rparr> 5)
     = Raises ZeroDivisionError"
  using limiter_init_any_rate[of 10 5] limiter_init_any_rate[of 0 5]
  by simp

theorem zero_rate_is_constructed:
  "limiter_init 0 None =
     Inr \<lparr>max_rate = 0, max_concurrent = None, semaphore = None, last_call = 0\<rparr>"
  by (simp add: limiter_init_def)

section \<open>Properties of the matcher\<close>

lemma conc_empty [simp]: "conc {} B = {}" "conc A {} = {}"
  by (simp_all add: conc_def)

lemma conc_unit [simp]: "conc {[]} B = B"
  by (simp add: conc_def)

lemma nil_in_conc: "[] \<in> conc A B \<longleftrightarrow> [] \<in> A \<and> [] \<in> B"
  by (auto simp: conc_def)

lemma cons_in_conc:
  "c # s \<in> conc A B \<longleftrightarrow>
     ([] \<in> A \<and> c # s \<in> B) \<or> (\<exists>u v. c # u \<in> A \<and> v \<in> B \<and> s = u @ v)"
proof
  assume "c # s \<in> conc A B"
  then obtain xs ys where x: "c # s = xs @ ys" "xs \<in> A" "ys \<in> B"
    by (auto simp: conc_def)
  show "([] \<in> A \<and> c # s \<in> B) \<or> (\<exists>u v. c # u \<in> A \<and> v \<in> B \<and> s = u @ v)"
  proof (cases xs)
    case Nil
    with x show ?thesis by simp
  next
    case (Cons a u)
    with x show ?thesis by auto
  qed
next
  assume "([] \<in> A \<and> c # s \<in> B) \<or> (\<exists>u v. c # u \<in> A \<and> v \<in> B \<and> s = u @ v)"
  then show "c # s \<in> conc A B"
  proof
    assume "[] \<in> A \<and> c # s \<in> B"
    then have "[] @ (c # s) \<in> conc A B" unfolding conc_def by blast
    then show ?thesis by simp
  next
    assume "\<exists>u v. c # u \<in> A \<and> v \<in> B \<and> s = u @ v"
    then obtain u v where "c # u \<in> A" "v \<in> B" "s = u @ v" by blast
    then have "(c # u) @ v \<in> conc A B" unfolding conc_def by blast
    with \<open>s = u @ v\<close> show ?thesis by simp
  qed
qed

lemma tails_of_conc:
  "{s. c # s \<in> conc A B} =
     conc {u. c # u \<in> A} B \<union> (if [] \<in> A then {s. c # s \<in> B} else {})"
proof (intro set_eqI iffI)
  fix s assume "s \<in> {s. c # s \<in> conc A B}"
  then have "([] \<in> A \<and> c # s \<in> B) \<or> (\<exists>u v. c # u \<in> A \<and> v \<in> B \<and> s = u @ v)"
    by (simp add: cons_in_conc)
  then show "s \<in> conc {u. c # u \<in> A} B \<union> (if [] \<in> A then {s. c # s \<in> B} else {})"
    unfolding conc_def by auto
next
  fix s assume "s \<in> conc {u. c # u \<in> A} B \<union> (if [] \<in> A then {s. c # s \<in> B} else {})"
  then have "([] \<in> A \<and> c # s \<in> B) \<or> (\<exists>u v. c # u \<in> A \<and> v \<in> B \<and> s = u @ v)"
    unfolding conc_def by (auto split: if_splits)
  then show "s \<in> {s. c # s \<in> conc A B}"
    by (simp add: cons_in_conc)
qed

lemma cons_in_pow:
  "c # s \<in> pow A k \<Longrightarrow> \<exists>u v j. c # u \<in> A \<and> v \<in> pow A j \<and> Suc j \<le> k \<and> s = u @ v"
proof (induction k)
  case 0
  then show ?case by simp
next
  case (Suc k)
  then have "([] \<in> A \<and> c # s \<in> pow A k) \<or>
             (\<exists>u v. c # u \<in> A \<and> v \<in> pow A k \<and> s = u @ v)"
    by (simp add: cons_in_conc)
  then show ?case
  proof
    assume "[] \<in> A \<and> c # s \<in> pow A k"
    with Suc.IH obtain u v j where
      "c # u \<in> A" "v \<in> pow A j" "Suc j \<le> k" "s = u @ v" by blast
    then show ?thesis by (intro exI[of _ u] exI[of _ v] exI[of _ j]) simp
  next
    assume "\<exists>u v. c # u \<in> A \<and> v \<in> pow A k \<and> s = u @ v"
    then obtain u v where "c # u \<in> A" "v \<in> pow A k" "s = u @ v" by blast
    then show ?thesis by (intro exI[of _ u] exI[of _ v] exI[of _ k]) simp
  qed
qed

lemma pow_step: "c # u \<in> A \<Longrightarrow> v \<in> pow A j \<Longrightarrow> c # u @ v \<in> pow A (Suc j)"
  by (auto simp: cons_in_conc)

lemma in_lang_Star: "s \<in> lang (Star r) \<longleftrightarrow> (\<exists>k. s \<in> pow (lang r) k)"
  by simp

lemma in_lang_Upto: "s \<in> lang (Upto r n) \<longleftrightarrow> (\<exists>k. k \<le> n \<and> s \<in> pow (lang r) k)"
  by auto

lemma nil_in_pow_0: "[] \<in> pow A 0"
  by simp

lemma nullable_lang: "nullable r \<longleftrightarrow> [] \<in> lang r"
proof (induction r)
  case (Star r)
  have "\<exists>k. [] \<in> pow (lang r) k"
    using nil_in_pow_0 by (rule exI)
  then show ?case by (simp only: nullable.simps in_lang_Star)
next
  case (Upto r n)
  have "0 \<le> n \<and> [] \<in> pow (lang r) 0" by simp
  then have "\<exists>k. k \<le> n \<and> [] \<in> pow (lang r) k" by (rule exI)
  then show ?case by (simp only: nullable.simps in_lang_Upto)
qed (auto simp: nil_in_conc)

lemma lang_mk_alt: "lang (mk_alt r s) = lang r \<union> lang s"
  by (induction r s rule: mk_alt.induct) simp_all

lemma lang_mk_seq: "lang (mk_seq r s) = conc (lang r) (lang s)"
  by (induction r s rule: mk_seq.induct) simp_all

lemma in_conc_tails:
  "s \<in> conc {u. c # u \<in> A} B \<longleftrightarrow> (\<exists>u v. c # u \<in> A \<and> v \<in> B \<and> s = u @ v)"
  unfolding conc_def by auto

lemma lang_deriv: "lang (deriv c r) = {s. c # s \<in> lang r}"
proof (induction c r rule: deriv.induct)
  case (5 c r s)
  then show ?case
    by (simp add: lang_mk_alt lang_mk_seq nullable_lang tails_of_conc Un_commute)
next
  case (6 c r)
  have d: "lang (deriv c (Star r)) = conc {u. c # u \<in> lang r} (lang (Star r))"
    using 6 by (simp only: deriv.simps lang_mk_seq)
  show ?case
  proof (intro set_eqI iffI)
    fix s assume "s \<in> lang (deriv c (Star r))"
    then obtain u v where uv: "c # u \<in> lang r" "v \<in> lang (Star r)" "s = u @ v"
      unfolding d in_conc_tails by blast
    from uv(2) obtain j where "v \<in> pow (lang r) j"
      unfolding in_lang_Star by blast
    with uv have "c # s \<in> pow (lang r) (Suc j)"
      using pow_step[of c u "lang r" v j] by simp
    then have "c # s \<in> lang (Star r)"
      unfolding in_lang_Star by (rule exI)
    then show "s \<in> {s. c # s \<in> lang (Star r)}" by (rule CollectI)
  next
    fix s assume "s \<in> {s. c # s \<in> lang (Star r)}"
    then have "c # s \<in> lang (Star r)" by (rule CollectD)
    then obtain k where "c # s \<in> pow (lang r) k"
      unfolding in_lang_Star by blast
    from cons_in_pow[OF this] obtain u v j where
      uv: "c # u \<in> lang r" "v \<in> pow (lang r) j" "s = u @ v" by blast
    from uv(2) have "v \<in> lang (Star r)"
      unfolding in_lang_Star by (rule exI)
    with uv show "s \<in> lang (deriv c (Star r))"
      unfolding d in_conc_tails by blast
  qed
next
  case (8 c r n)
  have d: "lang (deriv c (Upto r (Suc n))) = conc {u. c # u \<in> lang r} (lang (Upto r n))"
    using 8 by (simp only: deriv.simps lang_mk_seq)
  show ?case
  proof (intro set_eqI iffI)
    fix s assume "s \<in> lang (deriv c (Upto r (Suc n)))"
    then obtain u v where uv: "c # u \<in> lang r" "v \<in> lang (Upto r n)" "s = u @ v"
      unfolding d in_conc_tails by blast
    from uv(2) obtain j where j: "j \<le> n" "v \<in> pow (lang r) j"
      unfolding in_lang_Upto by blast
    with uv have "Suc j \<le> Suc n \<and> c # s \<in> pow (lang r) (Suc j)"
      using pow_step[of c u "lang r" v j] by simp
    then have "c # s \<in> lang (Upto r (Suc n))"
      unfolding in_lang_Upto by (rule exI)
    then show "s \<in> {s. c # s \<in> lang (Upto r (Suc n))}" by (rule CollectI)
  next
    fix s assume "s \<in> {s. c # s \<in> lang (Upto r (Suc n))}"
    then have "c # s \<in> lang (Upto r (Suc n))" by (rule CollectD)
    then obtain k where k: "k \<le> Suc n" "c # s \<in> pow (lang r) k"
      unfolding in_lang_Upto by blast
    from cons_in_pow[OF k(2)] obtain u v j where
      uv: "c # u \<in> lang r" "v \<in> pow (lang r) j" "Suc j \<le> k" "s = u @ v" by blast
    with k(1) have "j \<le> n \<and> v \<in> pow (lang r) j" by simp
    then have "v \<in> lang (Upto r n)"
      unfolding in_lang_Upto by (rule exI)
    with uv show "s \<in> lang (deriv c (Upto r (Suc n)))"
      unfolding d in_conc_tails by blast
  qed
qed (auto simp: lang_mk_alt lang_mk_seq)

lemma derivs_lang: "nullable (foldl (\<lambda>r c. deriv c r) r s) \<longleftrightarrow> s \<in> lang r"
  by (induction s arbitrary: r) (simp_all add: nullable_lang lang_deriv)

text \<open>The matcher accepts exactly the strings of the language.\<close>

lemma fullmatch_lang: "fullmatch r s \<longleftrightarrow> s \<in> lang r"
  by (simp add: fullmatch_def derivs_lang)

section \<open>Properties of the crawlers\<close>

declare async_attempts.simps [simp del]
declare thread_attempts.simps [simp del]

lemma valid_x: "validate_url ''https://a.test/x''"
  by code_simp

lemma valid_y: "validate_url ''https://a.test/y''"
  by code_simp

lemma invalid_not_a_url: "\<not> validate_url ''not a url''"
  by code_simp

lemma async_init_eq:
  "async_init us mw =
     Inr \<lparr>urls = us, max_workers = mw, max_retries = None, timeout = None,
          has_log_error = False,
          rate_limiter =
            \<lparr>max_rate = 10, max_concurrent = None, semaphore = None, last_call = 0\<rparr>\<rparr>"
  by (simp add: async_init_def limiter_init_def)

text \<open>Without a semaphore and with a rate other than zero, \<open>__aenter__\<close> completes.\<close>

lemma aenter_completes:
  assumes "semaphore L = None" and "max_rate L \<noteq> 0"
  shows "\<exists>t tr. aenter L now = (Returns t, stamp L t, tr) \<and> admissions tr = 1
           \<and> requests_made tr = 0"
  using assms
  by (auto simp: aenter_def sem_acquire_def gate_def Let_def admissions_def requests_made_def)

text \<open>
  C10. An \<open>AsyncCrawler\<close> or a \<open>ThreadedCrawler\<close> comes out of its constructor without
  \<open>max_retries\<close> and \<open>timeout\<close>. Whatever the URL, the clock, the network and the time
  stored in the limiter, \<open>AsyncCrawler.fetch_url\<close> and
  \<open>ThreadedCrawler._fetch_url_thread\<close> then raise \<open>AttributeError\<close> on reading
  \<open>self.max_retries\<close>, and no request has been issued.
\<close>

theorem unset_attributes_raise_before_any_request:
  "(\<exists>c. async_init us mw = Inr c \<and> max_retries c = None \<and> timeout c = None \<and>
        fst (async_fetch_url env (c\<lparr>rate_limiter := (rate_limiter c)\<lparr>last_call := t0\<rparr>\<rparr>) url now w)
          = Raises (AttributeError ''max_retries'') \<and>
        requests_made
          (fst (snd (async_fetch_url env
             (c\<lparr>rate_limiter := (rate_limiter c)\<lparr>last_call := t0\<rparr>\<rparr>) url now w))) = 0) \<and>
   max_retries (base_init us mw) = None \<and> timeout (base_init us mw) = None \<and>
   fst (fetch_url_thread env (base_init us mw) url w') = Inl (AttributeError ''max_retries'') \<and>
   requests_made (fst (snd (fetch_url_thread env (base_init us mw) url w'))) = 0"
proof -
  let ?L = "\<lparr>max_rate = 10, max_concurrent = None, semaphore = None, last_call = t0\<rparr>"
  obtain t tr where a: "aenter ?L now = (Returns t, stamp ?L t, tr)" "requests_made tr = 0"
    using aenter_completes[of ?L now] by auto
  then show ?thesis
    by (simp add: async_init_eq async_fetch_url_def fetch_url_thread_def base_init_def
        requests_made_def)
qed

text \<open>
  C3. The scenario's target list is given to an \<open>AsyncCrawler\<close>, and \<open>fetch_url\<close> is
  called on the malformed target at clock 5. The target is not validated:
  \<open>validate_url\<close> rejects it, yet the limiter admits the call (one admission, stamped 5)
  before anything else happens. \<open>SequentialCrawler.fetch_url\<close> returns the empty
  dictionary for the same target, with no sleep, no request and no admission.
\<close>

theorem async_admits_malformed_target:
  "\<not> validate_url ''not a url'' \<and>
   (\<exists>c. async_init scenario_urls 5 = Inr c \<and>
        fst (snd (async_fetch_url always_ok c ''not a url'' 5 ())) = [Admit 5] \<and>
        admissions (fst (snd (async_fetch_url always_ok c ''not a url'' 5 ()))) = 1) \<and>
   seq_fetch_url always_ok (base_init scenario_urls 5) ''not a url'' ()
     = (Inr [], [LogMsg ''Invalid URL''], ())"
  by (simp add: invalid_not_a_url async_init_eq async_fetch_url_def aenter_def sem_acquire_def
      gate_def stamp_def Let_def admissions_def seq_fetch_url_def)

text \<open>What \<open>SequentialCrawler.fetch_url\<close> returns has one of the three shapes.\<close>

lemma seq_fetch_url_outcome:
  "fst (seq_fetch_url env c url w) = Inr d \<Longrightarrow> seq_outcome url d"
  by (auto simp: seq_fetch_url_def seq_outcome_def full_success_def full_failure_def
      split: if_splits prod.splits http_outcome.splits option.splits)

lemma seq_crawl_loop_outcomes:
  "fst (seq_crawl_loop env c us w) = Inr rs \<Longrightarrow> list_all2 seq_outcome us rs"
proof (induction us arbitrary: w rs)
  case Nil
  then show ?case by simp
next
  case (Cons u us)
  obtain r tr w1 where f: "seq_fetch_url env c u w = (r, tr, w1)"
    by (cases "seq_fetch_url env c u w")
  obtain r' tr' w2 where l: "seq_crawl_loop env c us w1 = (r', tr', w2)"
    by (cases "seq_crawl_loop env c us w1")
  from Cons.prems f l obtain d ds where
    d: "r = Inr d" "r' = Inr ds" "rs = d # ds"
    by (auto split: sum.splits)
  from f d have "seq_outcome u d"
    using seq_fetch_url_outcome[of env c u w d] by simp
  moreover from l d have "list_all2 seq_outcome us ds"
    using Cons.IH[of w1 ds] by simp
  ultimately show ?case using d by simp
qed

text \<open>
  C8. When \<open>SequentialCrawler.crawl\<close> returns a list, it has one element for each target,
  in order. The element for a target that \<open>validate_url\<close> accepts is a success with
  exactly the keys \<open>url\<close>, \<open>status_code\<close>, \<open>job_count\<close>, \<open>titles\<close> or a failure with
  exactly the keys \<open>url\<close>, \<open>error\<close>, and names the target; the element for a target
  that \<open>validate_url\<close> rejects is the empty dictionary.
\<close>

theorem seq_crawl_outcomes:
  assumes "fst (seq_crawl env c w) = Inr rs"
  shows "list_all2 seq_outcome (urls c) rs"
  using assms seq_crawl_loop_outcomes[of env c "urls c" w rs]
  by (simp add: seq_crawl_def)

lemma seq_crawl_scenario:
  "seq_crawl always_ok (base_init scenario_urls 5) () =
     (Inr [ok_page ''https://a.test/x'',
           [],
           ok_page ''https://a.test/y''],
      [Sleep 1, Request ''https://a.test/x'' 5, LogMsg ''Invalid URL'',
       Sleep 1, Request ''https://a.test/y'' 5], ())"
  by (simp add: seq_crawl_def scenario_urls_def base_init_def seq_fetch_url_def valid_x valid_y
      invalid_not_a_url always_ok_def always_answers_def requests_bad_status_def ok_page_def)

theorem seq_crawl_outcomes_witness:
  "fst (seq_crawl always_ok (base_init scenario_urls 5) ()) =
     Inr [ok_page ''https://a.test/x'',
          [],
          ok_page ''https://a.test/y''] \<and>
   list_all2 seq_outcome (urls (base_init scenario_urls 5))
     [ok_page ''https://a.test/x'',
      [],
      ok_page ''https://a.test/y'']"
proof -
  have h: "fst (seq_crawl always_ok (base_init scenario_urls 5) ()) =
     Inr [ok_page ''https://a.test/x'',
          [],
          ok_page ''https://a.test/y'']"
    by (simp add: seq_crawl_scenario)
  from seq_crawl_outcomes[OF h] h show ?thesis by simp
qed

theorem malformed_target_gives_empty_element:
  "fst (seq_crawl always_ok (base_init [''not a url''] 5) ()) = Inr [ [] ] \<and>
   \<not> full_success ''not a url'' [] \<and> \<not> full_failure ''not a url'' []"
  by (simp add: seq_crawl_def base_init_def seq_fetch_url_def invalid_not_a_url
      full_success_def full_failure_def)

subsection \<open>The crawl on the event loop\<close>



















subsection \<open>The crawl comes to an end\<close>






























subsection \<open>Client errors\<close>








subsection \<open>The successes of the two \<open>crawl\<close> methods\<close>











subsection \<open>Waits between attempts\<close>

lemma sleeps_Nil: "sleeps [] = []"
  by (simp add: sleeps_def List.map_filter_simps)

lemma async_attempts_never_sleeps:
  "sleeps (fst (snd (async_attempts env c url retries attempt w))) = []"
proof (induction "nat (retries - attempt)" arbitrary: attempt w)
  case 0
  then show ?case
    by (subst async_attempts.simps) (simp add: sleeps_Nil)
next
  case (Suc k)
  have ih: "sleeps (fst (snd (async_attempts env c url retries (attempt + 1) w'))) = []"
    for w'
    using Suc.hyps(1)[of "attempt + 1" w'] Suc.hyps(2) by simp
  show ?case
    by (subst async_attempts.simps)
       (auto simp: case_prod_beta sleeps_Cons sleeps_Nil ih
          split: option.splits http_outcome.splits)
qed

lemma thread_attempts_never_sleeps:
  "sleeps (fst (snd (thread_attempts env c url retries attempt w))) = []"
proof (induction "nat (retries - attempt)" arbitrary: attempt w)
  case 0
  then show ?case
    by (subst thread_attempts.simps) (simp add: sleeps_Nil)
next
  case (Suc k)
  have ih: "sleeps (fst (snd (thread_attempts env c url retries (attempt + 1) w'))) = []"
    for w'
    using Suc.hyps(1)[of "attempt + 1" w'] Suc.hyps(2) by simp
  show ?case
    by (subst thread_attempts.simps)
       (auto simp: case_prod_beta sleeps_Cons sleeps_Nil ih
          split: option.splits http_outcome.splits)
qed


text \<open>
  C7. A call through \<open>ErrorHandler.retry\<close> with \<open>max_attempts \<ge> 1\<close>, however it ends,
  invokes the operation \<open>k + 1\<close> times for some \<open>k < max_attempts\<close>: the first \<open>k\<close>
  invocations raise a retryable exception, the \<open>i\<close>-th of them (counted from 1) is
  followed by one sleep of \<open>delay * backoff ^ (i - 1)\<close> seconds, and nothing follows the
  last invocation. The call returns what the last invocation returns, or raises what it
  raises, which is a retryable exception only when \<open>k + 1 = max_attempts\<close>. The loops of
  \<open>AsyncCrawler.fetch_url\<close> and of \<open>ThreadedCrawler._fetch_url_thread\<close>, which do not go
  through the decorator, sleep nowhere.
\<close>

theorem retry_backoff_waits:
  assumes "1 \<le> max_attempts"
  shows "(\<exists>k. int k < max_attempts \<and> fails_each func exceptions w k \<and>
            fst (snd (retry max_attempts delay backoff exceptions func w))
              = concat (map (\<lambda>i. [Invoke, Sleep (delay * backoff ^ i)]) [0..<k]) @ [Invoke] \<and>
            sleeps (fst (snd (retry max_attempts delay backoff exceptions func w)))
              = backoff_schedule delay backoff k \<and>
            snd (snd (retry max_attempts delay backoff exceptions func w))
              = snd (nth_call func w k) \<and>
            (case fst (nth_call func w k) of
               Inr v \<Rightarrow>
                 fst (retry max_attempts delay backoff exceptions func w) = Inr (Some v)
             | Inl e \<Rightarrow>
                 fst (retry max_attempts delay backoff exceptions func w) = Inl e \<and>
                 (exceptions e \<longrightarrow> int k = max_attempts - 1))) \<and>
         sleeps (fst (snd (async_attempts env c url retries attempt x))) = [] \<and>
         sleeps (fst (snd (thread_attempts env' c' url' retries' attempt' x'))) = []"
proof -
  from assms have "(0 :: int) < max_attempts" by simp
  from wrapper_loop_trace[OF this, of func exceptions w backoff delay]
  have "\<exists>k. int k < max_attempts \<and> fails_each func exceptions w k \<and>
    fst (snd (retry max_attempts delay backoff exceptions func w))
      = retry_trace delay backoff k \<and>
    snd (snd (retry max_attempts delay backoff exceptions func w)) = snd (nth_call func w k) \<and>
    (case fst (nth_call func w k) of
        Inr v \<Rightarrow> fst (retry max_attempts delay backoff exceptions func w) = Inr (Some v)
      | Inl e \<Rightarrow>
          fst (retry max_attempts delay backoff exceptions func w) = Inl e \<and>
          (exceptions e \<longrightarrow> int k = max_attempts - 1))"
    by (simp add: retry_def cong: sum.case_cong)
  then obtain k where k: "int k < max_attempts" "fails_each func exceptions w k"
    "fst (snd (retry max_attempts delay backoff exceptions func w)) = retry_trace delay backoff k"
    "snd (snd (retry max_attempts delay backoff exceptions func w)) = snd (nth_call func w k)"
    "(case fst (nth_call func w k) of
        Inr v \<Rightarrow> fst (retry max_attempts delay backoff exceptions func w) = Inr (Some v)
      | Inl e \<Rightarrow>
          fst (retry max_attempts delay backoff exceptions func w) = Inl e \<and>
          (exceptions e \<longrightarrow> int k = max_attempts - 1))"
    by blast
  from k(3) have
    "fst (snd (retry max_attempts delay backoff exceptions func w))
       = concat (map (\<lambda>i. [Invoke, Sleep (delay * backoff ^ i)]) [0..<k]) @ [Invoke]"
    "sleeps (fst (snd (retry max_attempts delay backoff exceptions func w)))
       = backoff_schedule delay backoff k"
    by (simp_all add: retry_trace_concat [symmetric] sleeps_retry_trace)
  with k(1,2,4,5) show ?thesis
    using async_attempts_never_sleeps[of env c url retries attempt x]
      thread_attempts_never_sleeps[of env' c' url' retries' attempt' x']
    by blast
qed

theorem retry_backoff_waits_witness:
  "(1 :: int) \<le> 3 \<and>
   fst (retry 3 1 2 (\<lambda>e. True) (flaky 2 ''body'') 0) = Inr (Some ''body'') \<and>
   fst (snd (retry 3 1 2 (\<lambda>e. True) (flaky 2 ''body'') 0))
     = [Invoke, Sleep 1, Invoke, Sleep 2, Invoke] \<and>
   sleeps (fst (snd (retry 3 1 2 (\<lambda>e. True) (flaky 2 ''body'') 0))) = [1, 2]"
proof -
  have n: "(1 :: int) \<le> 3" by simp
  have u: "[0..<2] = [0, Suc 0]"
    by (simp add: upt_conv_Cons)
  from retry_backoff_waits[OF n, where func = "flaky 2 ''body''" and exceptions = "\<lambda>e. True"
      and w = 0 and delay = 1 and backoff = 2, THEN conjunct1]
  obtain k where k: "int k < 3"
    "fst (snd (retry 3 1 2 (\<lambda>e. True) (flaky 2 ''body'') 0))
       = concat (map (\<lambda>i. [Invoke, Sleep (1 * 2 ^ i)]) [0..<k]) @ [Invoke]"
    "sleeps (fst (snd (retry 3 1 2 (\<lambda>e. True) (flaky 2 ''body'') 0)))
       = backoff_schedule 1 2 k"
    "(case fst (nth_call (flaky 2 ''body'') 0 k) of
        Inr v \<Rightarrow> fst (retry 3 1 2 (\<lambda>e. True) (flaky 2 ''body'') 0) = Inr (Some v)
      | Inl e \<Rightarrow>
          fst (retry 3 1 2 (\<lambda>e. True) (flaky 2 ''body'') 0) = Inl e \<and>
          (True \<longrightarrow> int k = 3 - 1))"
    by blast
  from k(1) have "k = 0 \<or> k = 1 \<or> k = 2" by auto
  with k(4) have "k = 2"
    by (auto simp: flaky_def)
  with k n show ?thesis
    by (simp add: flaky_def numeral_2_eq_2 backoff_schedule_def u)
qed

theorem crawler_retry_does_not_wait:
  "(\<exists>c. async_init [''https://a.test/x''] 5 = Inr c \<and>
        fst (async_fetch_url fails_twice (supplied 3 10 c) ''https://a.test/x'' 5 0)
          = Returns (Some ''<html></html>'') \<and>
        requests_made
          (fst (snd (async_fetch_url fails_twice (supplied 3 10 c) ''https://a.test/x'' 5 0)))
          = 3 \<and>
        sleeps
          (fst (snd (async_fetch_url fails_twice (supplied 3 10 c) ''https://a.test/x'' 5 0)))
          = []) \<and>
   fst (fetch_url_thread fails_twice (supplied 3 10 (base_init [''https://a.test/x''] 5))
          ''https://a.test/x'' 0)
     = Inr (Some [(''url'', VStr ''https://a.test/x''), (''content'', VStr ''<html></html>'')]) \<and>
   requests_made
     (fst (snd (fetch_url_thread fails_twice (supplied 3 10 (base_init [''https://a.test/x''] 5))
                  ''https://a.test/x'' 0)))
     = 3 \<and>
   sleeps
     (fst (snd (fetch_url_thread fails_twice (supplied 3 10 (base_init [''https://a.test/x''] 5))
                  ''https://a.test/x'' 0)))
     = []"
  by (simp add: async_init_eq async_fetch_url_def fetch_url_thread_def
      aenter_def sem_acquire_def gate_def stamp_def aexit_def raised_def Let_def supplied_def
      base_init_def async_attempts.simps thread_attempts.simps fails_twice_def
      aiohttp_bad_status_def requests_bad_status_def requests_made_def sleeps_def)

end
